theory Spec2Isabelle
  imports Main "HOL-Library.AList"
begin

section \<open>The container orchestrator of \<open>src/mod.tsx\<close>\<close>

text \<open>
  The class \<open>ContainerOrchestrator\<close> keeps a \<open>Map\<close> from task ids to task objects,
  writes it to a state file, and drives podman through \<open>Deno.Command\<close>. The model is
  a state-passing one: every method takes the orchestrator state and returns the new one,
  next to the value the method resolves to. Everything outside the class is an oracle:
  what podman answers, what the clock reads and what \<open>crypto.randomUUID()\<close> yields.

  Each method is modelled as running from its first line to its last without another
  method interleaving at an \<open>await\<close>, and \<open>Deno.writeTextFile\<close> is taken to succeed.
  Strings are lists of code units below 256; \<open>console.log\<close> is left out.
\<close>

subsection \<open>Types (lines 5-26)\<close>

datatype status = Stopped | Running | Error | Pending

text \<open>
  \<open>createTask\<close> takes an \<open>Omit<Task, "id" | "createdAt" | "updatedAt" | "status">\<close>: the
  fields of \<open>Task\<close> that remain are the parent record, and \<open>Task\<close> extends it by the four
  omitted ones. The fields \<open>id\<close> and \<open>image\<close> of the source are \<open>id_t\<close> and \<open>image_t\<close>.
\<close>

record taskData =
  name :: string
  image_t :: string
  command :: "string list option"
  env :: "(string \<times> string) list option"
  ports :: "string list option"
  volumes :: "string list option"
  containerId :: "string option"
  autoRestart :: bool

record task = taskData +
  id_t :: string
  status :: status
  createdAt :: string
  updatedAt :: string

text \<open>
  The four components of \<open>ContainerInfo\<close> come out of a destructured \<open>split(",")\<close>, so
  each one is \<open>undefined\<close> when the output has too few commas.
\<close>

record ContainerInfo =
  info_id :: "string option"
  info_status :: "string option"
  info_name :: "string option"
  info_image :: "string option"

subsection \<open>The world outside the class\<close>

text \<open>
  What \<open>new Deno.Command(...).output()\<close> does: the process exits with a code and its two
  captured streams, or launching it throws.
\<close>

datatype proc_outcome = Exited int string string | Threw string

text \<open>
  \<open>exec\<close> answers a command given the commands issued before it, so that the same
  command may be answered differently at different times; \<open>date n\<close> is what the
  \<open>n\<close>-th \<open>new Date().toISOString()\<close> reads and \<open>uuid n\<close> what the \<open>n\<close>-th
  \<open>crypto.randomUUID()\<close> returns.
\<close>

record world =
  exec :: "string list list \<Rightarrow> string list \<Rightarrow> proc_outcome"
  date :: "nat \<Rightarrow> string"
  uuid :: "nat \<Rightarrow> string"

text \<open>The object \<open>saveState\<close> serialises (lines 50-53).\<close>

record saved =
  saved_tasks :: "(string \<times> task) list"
  lastSaved :: string

text \<open>
  \<open>tasks\<close> is the \<open>Map\<close>, in insertion order; \<open>stateFile\<close> lists what has been written
  to \<open>./orchestrator-state.json\<close>, oldest first, the last element being the file's
  content; \<open>calls\<close> lists the commands handed to \<open>Deno.Command\<close>, oldest first;
  \<open>ticks\<close> and \<open>uuids\<close> count the readings of the clock and of the id generator.
\<close>

record orch =
  tasks :: "(string \<times> task) list"
  stateFile :: "saved list"
  calls :: "string list list"
  ticks :: nat
  uuids :: nat

subsection \<open>The \<open>Map\<close> and the strings of JavaScript\<close>

definition map_get :: "(string \<times> 'v) list \<Rightarrow> string \<Rightarrow> 'v option" where
  "map_get m k = map_of m k"

text \<open>\<open>Map.prototype.set\<close> keeps the position of a key that is present and appends a new one.\<close>

definition map_set :: "(string \<times> 'v) list \<Rightarrow> string \<Rightarrow> 'v \<Rightarrow> (string \<times> 'v) list" where
  "map_set m k v = AList.update k v m"

definition map_delete :: "(string \<times> 'v) list \<Rightarrow> string \<Rightarrow> (string \<times> 'v) list" where
  "map_delete m k = AList.delete k m"

text \<open>
  \<open>if (task.containerId)\<close>: \<open>undefined\<close> and the empty string are both falsy.
\<close>

definition truthy :: "string option \<Rightarrow> bool" where
  "truthy s = (case s of None \<Rightarrow> False | Some x \<Rightarrow> x \<noteq> [])"

text \<open>The white space and line terminators \<open>String.prototype.trim\<close> removes, below 256.\<close>

definition isSpace :: "char \<Rightarrow> bool" where
  "isSpace c = (c \<in> {CHR 0x09, CHR 0x0A, CHR 0x0B, CHR 0x0C, CHR 0x0D, CHR 0x20, CHR 0xA0})"

definition trim :: "string \<Rightarrow> string" where
  "trim s = rev (dropWhile isSpace (rev (dropWhile isSpace s)))"

text \<open>\<open>s.split(c)\<close> for a one-character separator: never empty, \<open>"".split(",")\<close> is \<open>[""]\<close>.\<close>

fun split_on :: "char \<Rightarrow> string \<Rightarrow> string list" where
  "split_on c [] = [[]]"
| "split_on c (x # xs) =
     (if x = c then [] # split_on c xs
      else (case split_on c xs of [] \<Rightarrow> [[x]] | p # ps \<Rightarrow> (x # p) # ps))"

text \<open>An element of a destructured array: \<open>undefined\<close> past the end.\<close>

definition nth_opt :: "'a list \<Rightarrow> nat \<Rightarrow> 'a option" where
  "nth_opt xs i = (if i < length xs then Some (xs ! i) else None)"

text \<open>A value inside a template literal: \<open>undefined\<close> prints as the word.\<close>

definition show_opt :: "string option \<Rightarrow> string" where
  "show_opt s = (case s of None \<Rightarrow> ''undefined'' | Some x \<Rightarrow> x)"

subsection \<open>State persistence and podman commands (lines 49-101)\<close>

definition newDate :: "world \<Rightarrow> orch \<Rightarrow> string \<times> orch" where
  "newDate w st = (date w (ticks st), st\<lparr>ticks := Suc (ticks st)\<rparr>)"

definition saveState :: "world \<Rightarrow> orch \<Rightarrow> orch" where
  "saveState w st =
     (case newDate w st of (now, st1) \<Rightarrow>
        st1\<lparr>stateFile := stateFile st1 @ [\<lparr>saved_tasks = tasks st1, lastSaved = now\<rparr>]\<rparr>)"

record cmd_result =
  success :: bool
  output_r :: string
  error :: "string option"

definition runCommand :: "world \<Rightarrow> string list \<Rightarrow> orch \<Rightarrow> cmd_result \<times> orch" where
  "runCommand w cmd st =
     ((case exec w (calls st) cmd of
         Exited code out err \<Rightarrow>
           \<lparr>success = (code = 0), output_r = out, error = (if err = [] then None else Some err)\<rparr>
       | Threw msg \<Rightarrow> \<lparr>success = False, output_r = [], error = Some msg\<rparr>),
      st\<lparr>calls := calls st @ [cmd]\<rparr>)"

definition inspectCmd :: "string \<Rightarrow> string list" where
  "inspectCmd cid =
     [''podman'', ''inspect'', ''--format'',
      ''{{.Id}},{{.State.Status}},{{.Name}},{{.Config.Image}}'', cid]"

definition getContainerInfo :: "world \<Rightarrow> string \<Rightarrow> orch \<Rightarrow> ContainerInfo option \<times> orch" where
  "getContainerInfo w cid st =
     (case runCommand w (inspectCmd cid) st of (result, st1) \<Rightarrow>
        if \<not> success result then (None, st1)
        else (let parts = split_on CHR '','' (trim (output_r result)) in
              (Some \<lparr>info_id = nth_opt parts 0, info_status = nth_opt parts 1,
                     info_name = nth_opt parts 2, info_image = nth_opt parts 3\<rparr>, st1)))"

subsection \<open>Task management (lines 104-252)\<close>

definition createTask :: "world \<Rightarrow> taskData \<Rightarrow> orch \<Rightarrow> task \<times> orch" where
  "createTask w td st =
     (let newId = uuid w (uuids st);
          st1 = st\<lparr>uuids := Suc (uuids st)\<rparr> in
      case newDate w st1 of (created, st2) \<Rightarrow>
      case newDate w st2 of (updated, st3) \<Rightarrow>
        (let t = taskData.extend td
                   (task.fields newId Stopped created updated);
             st4 = st3\<lparr>tasks := map_set (tasks st3) (id_t t) t\<rparr>
         in (t, saveState w st4)))"

record reply =
  successR :: bool
  message :: string

text \<open>The podman invocation \<open>startTask\<close> builds (lines 128-156).\<close>

definition startCmd :: "task \<Rightarrow> string list" where
  "startCmd t =
     [''podman'', ''run'', ''-d'', ''--name'', ''task-'' @ id_t t]
     @ (case ports t of None \<Rightarrow> [] | Some ps \<Rightarrow> concat (map (\<lambda>p. [''-p'', p]) ps))
     @ (case volumes t of None \<Rightarrow> [] | Some vs \<Rightarrow> concat (map (\<lambda>v. [''-v'', v]) vs))
     @ (case env t of None \<Rightarrow> []
        | Some es \<Rightarrow> concat (map (\<lambda>(k, v). [''-e'', k @ ''='' @ v]) es))
     @ [image_t t]
     @ (case command t of None \<Rightarrow> [] | Some c \<Rightarrow> if 0 < length c then c else [])"

text \<open>
  Lines 158-159, up to the \<open>await\<close> of line 161: the object in the map is marked
  pending, then replaced by a copy with a new \<open>updatedAt\<close>. The result is the state in
  which the run command is issued.
\<close>

definition startTask_pending :: "world \<Rightarrow> string \<Rightarrow> task \<Rightarrow> orch \<Rightarrow> orch" where
  "startTask_pending w taskId t st =
     (case newDate w st of (now, st1) \<Rightarrow>
        st1\<lparr>tasks := map_set (tasks st1) taskId (t\<lparr>status := Pending, updatedAt := now\<rparr>)\<rparr>)"

text \<open>
  Lines 163-178, after the command has returned. \<open>task\<close> still names the object fetched
  at line 123, which line 158 marked pending; the copy stored at line 159 is replaced.
\<close>

definition startTask_settle :: "world \<Rightarrow> string \<Rightarrow> task \<Rightarrow> cmd_result \<Rightarrow> orch \<Rightarrow> reply \<times> orch" where
  "startTask_settle w taskId t result st =
     (if success result then
        (case newDate w st of (now, st1) \<Rightarrow>
           (\<lparr>successR = True, message = ''Task started successfully''\<rparr>,
            saveState w
              (st1\<lparr>tasks := map_set (tasks st1) taskId
                 (t\<lparr>status := Running, containerId := Some (trim (output_r result)),
                    updatedAt := now\<rparr>)\<rparr>)))
      else
        (case newDate w st of (now, st1) \<Rightarrow>
           (\<lparr>successR = False,
             message = ''Failed to start task: '' @ show_opt (error result)\<rparr>,
            saveState w
              (st1\<lparr>tasks := map_set (tasks st1) taskId
                 (t\<lparr>status := Error, updatedAt := now\<rparr>)\<rparr>))))"

definition startTask :: "world \<Rightarrow> string \<Rightarrow> orch \<Rightarrow> reply \<times> orch" where
  "startTask w taskId st =
     (case map_get (tasks st) taskId of
        None \<Rightarrow> (\<lparr>successR = False, message = ''Task not found''\<rparr>, st)
      | Some t \<Rightarrow>
          (case runCommand w (startCmd t) (startTask_pending w taskId t st) of
             (result, st1) \<Rightarrow> startTask_settle w taskId (t\<lparr>status := Pending\<rparr>) result st1))"

definition stopTask :: "world \<Rightarrow> string \<Rightarrow> orch \<Rightarrow> reply \<times> orch" where
  "stopTask w taskId st =
     (case map_get (tasks st) taskId of
        None \<Rightarrow> (\<lparr>successR = False, message = ''Task not found''\<rparr>, st)
      | Some t \<Rightarrow>
          (case containerId t of
             None \<Rightarrow> (\<lparr>successR = False, message = ''No container ID found''\<rparr>, st)
           | Some cid \<Rightarrow>
               if cid = [] then (\<lparr>successR = False, message = ''No container ID found''\<rparr>, st)
               else
                 (case runCommand w [''podman'', ''stop'', cid] st of (result, st1) \<Rightarrow>
                    if success result then
                      (case newDate w st1 of (now, st2) \<Rightarrow>
                         (\<lparr>successR = True, message = ''Task stopped successfully''\<rparr>,
                          saveState w
                            (st2\<lparr>tasks := map_set (tasks st2) taskId
                               (t\<lparr>status := Stopped, updatedAt := now\<rparr>)\<rparr>)))
                    else
                      (\<lparr>successR = False,
                        message = ''Failed to stop task: '' @ show_opt (error result)\<rparr>,
                       st1))))"

text \<open>
  \<open>removeTask\<close> ignores what \<open>stopTask\<close> and the \<open>podman rm\<close> resolve to. \<open>stopTask\<close>
  leaves the \<open>containerId\<close> of the fetched object alone, so line 222 tests the value read
  at line 211.
\<close>

definition removeTask :: "world \<Rightarrow> string \<Rightarrow> orch \<Rightarrow> reply \<times> orch" where
  "removeTask w taskId st =
     (case map_get (tasks st) taskId of
        None \<Rightarrow> (\<lparr>successR = False, message = ''Task not found''\<rparr>, st)
      | Some t \<Rightarrow>
          (let st1 = (if truthy (containerId t) \<and> status t = Running
                      then snd (stopTask w taskId st) else st);
               st2 = (case containerId t of
                        None \<Rightarrow> st1
                      | Some cid \<Rightarrow>
                          if cid = [] then st1
                          else snd (runCommand w [''podman'', ''rm'', cid] st1));
               st3 = st2\<lparr>tasks := map_delete (tasks st2) taskId\<rparr>
           in (\<lparr>successR = True, message = ''Task removed successfully''\<rparr>, saveState w st3)))"

record logs_reply =
  successL :: bool
  logs :: "string option"
  messageL :: "string option"

definition getTaskLogs :: "world \<Rightarrow> string \<Rightarrow> orch \<Rightarrow> logs_reply \<times> orch" where
  "getTaskLogs w taskId st =
     (case map_get (tasks st) taskId of
        None \<Rightarrow>
          (\<lparr>successL = False, logs = None, messageL = Some ''Task or container not found''\<rparr>, st)
      | Some t \<Rightarrow>
          (case containerId t of
             None \<Rightarrow>
               (\<lparr>successL = False, logs = None,
                 messageL = Some ''Task or container not found''\<rparr>, st)
           | Some cid \<Rightarrow>
               if cid = [] then
                 (\<lparr>successL = False, logs = None,
                   messageL = Some ''Task or container not found''\<rparr>, st)
               else
                 (case runCommand w [''podman'', ''logs'', ''--tail'', ''100'', cid] st of
                    (result, st1) \<Rightarrow>
                      if success result then
                        (\<lparr>successL = True, logs = Some (output_r result), messageL = None\<rparr>, st1)
                      else
                        (\<lparr>successL = False, logs = None,
                          messageL = Some (''Failed to get logs: '' @ show_opt (error result))\<rparr>,
                         st1))))"

definition getTasks :: "orch \<Rightarrow> task list" where
  "getTasks st = map snd (tasks st)"

definition getTask :: "orch \<Rightarrow> string \<Rightarrow> task option" where
  "getTask st taskId = map_get (tasks st) taskId"

subsection \<open>The two sweeps (lines 254-288)\<close>

text \<open>
  \<open>for (const [taskId, task] of this.tasks)\<close> walks the live map: an entry is read when
  the iterator reaches it. Neither loop body adds or deletes a key, so the keys visited
  are those present when the loop starts, in insertion order, and each body reads the
  entry its key has at that moment.
\<close>

definition notRunning :: "ContainerInfo option \<Rightarrow> bool" where
  "notRunning ci = (case ci of None \<Rightarrow> True | Some i \<Rightarrow> info_status i \<noteq> Some ''running'')"

text \<open>The body of the loop of \<open>restartAutoRestartTasks\<close> (lines 258-266).\<close>

definition restartStep :: "world \<Rightarrow> string \<Rightarrow> orch \<Rightarrow> orch" where
  "restartStep w taskId st =
     (case map_get (tasks st) taskId of
        None \<Rightarrow> st
      | Some t \<Rightarrow>
          (case containerId t of
             None \<Rightarrow> st
           | Some cid \<Rightarrow>
               if autoRestart t \<and> status t = Running \<and> cid \<noteq> [] then
                 (case getContainerInfo w cid st of (containerInfo, st1) \<Rightarrow>
                    if notRunning containerInfo then snd (startTask w taskId st1) else st1)
               else st))"

fun restartLoop :: "world \<Rightarrow> string list \<Rightarrow> orch \<Rightarrow> orch" where
  "restartLoop w [] st = st"
| "restartLoop w (taskId # ks) st = restartLoop w ks (restartStep w taskId st)"

definition restartAutoRestartTasks :: "world \<Rightarrow> orch \<Rightarrow> orch" where
  "restartAutoRestartTasks w st = restartLoop w (map fst (tasks st)) st"

text \<open>
  The body of the loop of \<open>updateTaskStatuses\<close> (lines 272-285). The object is changed
  in place and stored under its own key, so only \<open>status\<close> and \<open>updatedAt\<close> move.
\<close>

definition updateStep :: "world \<Rightarrow> string \<Rightarrow> orch \<Rightarrow> orch" where
  "updateStep w taskId st =
     (case map_get (tasks st) taskId of
        None \<Rightarrow> st
      | Some t \<Rightarrow>
          (case containerId t of
             None \<Rightarrow> st
           | Some cid \<Rightarrow>
               if cid = [] then st
               else
                 (case getContainerInfo w cid st of (containerInfo, st1) \<Rightarrow>
                    (case containerInfo of
                       None \<Rightarrow> st1
                     | Some ci \<Rightarrow>
                         (let newStatus = (if info_status ci = Some ''running''
                                           then Running else Stopped) in
                          if newStatus \<noteq> status t then
                            (case newDate w st1 of (now, st2) \<Rightarrow>
                               st2\<lparr>tasks := map_set (tasks st2) taskId
                                 (t\<lparr>status := newStatus, updatedAt := now\<rparr>)\<rparr>)
                          else st1)))))"

fun updateLoop :: "world \<Rightarrow> string list \<Rightarrow> orch \<Rightarrow> orch" where
  "updateLoop w [] st = st"
| "updateLoop w (taskId # ks) st = updateLoop w ks (updateStep w taskId st)"

definition updateTaskStatuses :: "world \<Rightarrow> orch \<Rightarrow> orch" where
  "updateTaskStatuses w st = saveState w (updateLoop w (map fst (tasks st)) st)"

subsection \<open>Notions the claims are stated with\<close>

text \<open>
  The keys the iterator of a sweep has visited when it reaches \<open>taskId\<close>: the state in
  which a sweep handles a task is the state after the loop has run over these.
\<close>

definition keysBefore :: "string \<Rightarrow> orch \<Rightarrow> string list" where
  "keysBefore taskId st = takeWhile (\<lambda>k. k \<noteq> taskId) (map fst (tasks st))"

text \<open>The state in which each sweep reaches the task \<open>taskId\<close>.\<close>

definition updateReaches :: "world \<Rightarrow> string \<Rightarrow> orch \<Rightarrow> orch" where
  "updateReaches w taskId st = updateLoop w (keysBefore taskId st) st"

definition restartReaches :: "world \<Rightarrow> string \<Rightarrow> orch \<Rightarrow> orch" where
  "restartReaches w taskId st = restartLoop w (keysBefore taskId st) st"

text \<open>
  How many of the commands \<open>cs\<close> are run invocations for the task \<open>taskId\<close>: the ones
  that start as the command of \<open>startTask\<close> does, with the container name of the task.
\<close>

definition runsFor :: "string \<Rightarrow> string list list \<Rightarrow> nat" where
  "runsFor taskId cs =
     length (filter (\<lambda>c. take 5 c = [''podman'', ''run'', ''-d'', ''--name'', ''task-'' @ taskId]) cs)"

text \<open>
  What a \<open>Map\<close> filled by \<open>createTask\<close> satisfies: no key twice, and every task stored
  under its own \<open>id\<close>.
\<close>

definition wellFormed :: "orch \<Rightarrow> bool" where
  "wellFormed st =
     (distinct (map fst (tasks st)) \<and> list_all (\<lambda>(k, t). id_t t = k) (tasks st))"

text \<open>
  The second half of \<open>wellFormed\<close> in terms of lookups, the form in which the proofs
  carry it through a sweep.
\<close>

definition idsKept :: "orch \<Rightarrow> bool" where
  "idsKept st = (\<forall>k t. map_get (tasks st) k = Some t \<longrightarrow> id_t t = k)"

text \<open>The operations on the orchestrator, and the state each one leaves.\<close>

datatype request =
  Create taskData | Start string | Stop string | Logs string | Remove string
  | StatusSync | AutoRestartSweep

fun perform :: "world \<Rightarrow> request \<Rightarrow> orch \<Rightarrow> orch" where
  "perform w (Create td) st = snd (createTask w td st)"
| "perform w (Start taskId) st = snd (startTask w taskId st)"
| "perform w (Stop taskId) st = snd (stopTask w taskId st)"
| "perform w (Logs taskId) st = snd (getTaskLogs w taskId st)"
| "perform w (Remove taskId) st = snd (removeTask w taskId st)"
| "perform w StatusSync st = updateTaskStatuses w st"
| "perform w AutoRestartSweep st = restartAutoRestartTasks w st"

subsection \<open>Stub worlds and small stores\<close>

text \<open>
  A store with no task, a podman stub that answers \<open>inspect\<close> with one outcome and every
  other command with another, and the task of the scenario of the specification.
\<close>

definition emptyOrch :: orch where
  "emptyOrch = \<lparr>tasks = [], stateFile = [], calls = [], ticks = 0, uuids = 0\<rparr>"

definition stubWorld :: "proc_outcome \<Rightarrow> proc_outcome \<Rightarrow> world" where
  "stubWorld onInspect onOther =
     \<lparr>exec = (\<lambda>h cmd. if nth_opt cmd (Suc 0) = Some ''inspect'' then onInspect else onOther),
      date = (\<lambda>n. ''2024-01-01T00:00:0'' @ replicate n CHR ''0''),
      uuid = (\<lambda>n. ''uuid-'' @ replicate n CHR ''x'')\<rparr>"

definition webTask :: task where
  "webTask = \<lparr>name = ''web'', image_t = ''nginx:latest'', command = None, env = None,
     ports = Some [''8080:80''], volumes = None, containerId = None, autoRestart = False,
     id_t = ''t1'', status = Stopped, createdAt = ''c0'', updatedAt = ''c0''\<rparr>"

definition oneTask :: "task \<Rightarrow> orch" where
  "oneTask t = emptyOrch\<lparr>tasks := [(id_t t, t)]\<rparr>"

definition runningTask :: task where
  "runningTask = webTask\<lparr>status := Running, containerId := Some ''old''\<rparr>"

definition restartableTask :: task where
  "restartableTask = runningTask\<lparr>autoRestart := True\<rparr>"

definition webData :: taskData where
  "webData = \<lparr>name = ''web'', image_t = ''nginx:latest'', command = None, env = None,
     ports = Some [''8080:80''], volumes = None, containerId = None, autoRestart = False\<rparr>"

definition blankData :: taskData where
  "blankData = \<lparr>name = [], image_t = [], command = None, env = None, ports = None,
     volumes = None, containerId = None, autoRestart = False\<rparr>"

definition plainTask :: task where
  "plainTask = runningTask\<lparr>id_t := ''t2''\<rparr>"

definition twoTasks :: orch where
  "twoTasks = emptyOrch\<lparr>tasks := [(''t1'', restartableTask), (''t2'', plainTask)]\<rparr>"


section \<open>Basic facts about the model\<close>

lemma map_get_set [simp]:
  "map_get (map_set m k v) k' = (if k' = k then Some v else map_get m k')"
  by (simp add: map_get_def map_set_def update_conv')

lemma map_get_delete [simp]:
  "map_get (map_delete m k) k' = (if k' = k then None else map_get m k')"
  by (simp add: map_get_def map_delete_def delete_conv')

lemma keys_map_delete [simp]: "k \<notin> fst ` set (map_delete m k)"
  by (simp add: map_delete_def delete_notin_dom)

lemma map_delete_set [simp]: "map_delete (map_set m k v) k = map_delete m k"
  by (simp add: map_delete_def map_set_def delete_update_same)

lemma saveState_simps [simp]:
  "tasks (saveState w st) = tasks st"
  "calls (saveState w st) = calls st"
  "uuids (saveState w st) = uuids st"
  "ticks (saveState w st) = Suc (ticks st)"
  "stateFile (saveState w st) =
     stateFile st @ [\<lparr>saved_tasks = tasks st, lastSaved = date w (ticks st)\<rparr>]"
  by (simp_all add: saveState_def newDate_def)

lemma runCommand_simps [simp]:
  "tasks (snd (runCommand w c st)) = tasks st"
  "calls (snd (runCommand w c st)) = calls st @ [c]"
  "stateFile (snd (runCommand w c st)) = stateFile st"
  "ticks (snd (runCommand w c st)) = ticks st"
  "uuids (snd (runCommand w c st)) = uuids st"
  by (simp_all add: runCommand_def)

text \<open>What a command resolves to depends on the store only through the earlier commands.\<close>

lemma runCommand_result:
  "calls st' = calls st \<Longrightarrow> fst (runCommand w c st') = fst (runCommand w c st)"
  by (simp add: runCommand_def)

lemma startTask_pending_simps [simp]:
  "tasks (startTask_pending w k t st) =
     map_set (tasks st) k (t\<lparr>status := Pending, updatedAt := date w (ticks st)\<rparr>)"
  "calls (startTask_pending w k t st) = calls st"
  "stateFile (startTask_pending w k t st) = stateFile st"
  "ticks (startTask_pending w k t st) = Suc (ticks st)"
  "uuids (startTask_pending w k t st) = uuids st"
  by (simp_all add: startTask_pending_def newDate_def)

lemma startTask_settle_simps [simp]:
  "tasks (snd (startTask_settle w k t r st)) =
     map_set (tasks st) k
       (if success r
        then t\<lparr>status := Running, containerId := Some (trim (output_r r)),
               updatedAt := date w (ticks st)\<rparr>
        else t\<lparr>status := Error, updatedAt := date w (ticks st)\<rparr>)"
  "calls (snd (startTask_settle w k t r st)) = calls st"
  "stateFile (snd (startTask_settle w k t r st)) =
     stateFile st @ [\<lparr>saved_tasks = tasks (snd (startTask_settle w k t r st)),
                      lastSaved = date w (Suc (ticks st))\<rparr>]"
  "successR (fst (startTask_settle w k t r st)) = success r"
  by (simp_all add: startTask_settle_def newDate_def)

text \<open>\<open>startTask\<close> on a task that is there: mark pending, run, settle.\<close>

lemma startTask_found:
  "map_get (tasks st) k = Some t \<Longrightarrow>
   startTask w k st =
     startTask_settle w k (t\<lparr>status := Pending\<rparr>)
       (fst (runCommand w (startCmd t) st))
       (snd (runCommand w (startCmd t) (startTask_pending w k t st)))"
  by (simp add: startTask_def split: prod.splits)
     (metis fst_conv runCommand_result startTask_pending_simps(2))

text \<open>\<open>stopTask\<close> touches the entry of its own task at most.\<close>

lemma stopTask_tasks:
  "tasks (snd (stopTask w k st)) = tasks st \<or>
   (\<exists>t'. tasks (snd (stopTask w k st)) = map_set (tasks st) k t')"
  by (auto simp add: stopTask_def newDate_def case_prod_beta split: option.splits)

lemma getContainerInfo_simps [simp]:
  "tasks (snd (getContainerInfo w cid st)) = tasks st"
  "calls (snd (getContainerInfo w cid st)) = calls st @ [inspectCmd cid]"
  "stateFile (snd (getContainerInfo w cid st)) = stateFile st"
  "ticks (snd (getContainerInfo w cid st)) = ticks st"
  by (simp_all add: getContainerInfo_def case_prod_beta Let_def)

lemma startTask_other:
  "k' \<noteq> k \<Longrightarrow> map_get (tasks (snd (startTask w k st))) k' = map_get (tasks st) k'"
  by (cases "map_get (tasks st) k") (simp_all add: startTask_found, simp add: startTask_def)

lemma startTask_calls:
  "map_get (tasks st) k = Some t \<Longrightarrow> calls (snd (startTask w k st)) = calls st @ [startCmd t]"
  by (simp add: startTask_found)

lemma startTask_same:
  "map_get (tasks st) k = Some t \<Longrightarrow>
   map_get (tasks (snd (startTask w k st))) k =
     Some (if success (fst (runCommand w (startCmd t) st))
           then t\<lparr>status := Running,
                  containerId := Some (trim (output_r (fst (runCommand w (startCmd t) st)))),
                  updatedAt := date w (Suc (ticks st))\<rparr>
           else t\<lparr>status := Error, updatedAt := date w (Suc (ticks st))\<rparr>)"
  by (simp add: startTask_found)

lemma stopTask_keeps:
  assumes "map_get (tasks st) k = Some t"
  shows "\<exists>t'. map_get (tasks (snd (stopTask w k' st))) k = Some t'
              \<and> containerId t' = containerId t"
  using assms
  by (auto simp add: stopTask_def newDate_def case_prod_beta split: option.splits)

lemma getTaskLogs_tasks [simp]: "tasks (snd (getTaskLogs w k st)) = tasks st"
  by (simp add: getTaskLogs_def case_prod_beta split: option.splits)

lemma createTask_tasks:
  "tasks (snd (createTask w td st))
     = map_set (tasks st) (uuid w (uuids st)) (fst (createTask w td st))"
  by (simp add: createTask_def newDate_def Let_def taskData.extend_def task.fields_def)

subsection \<open>Walking the keys of the map\<close>

text \<open>
  A key that is in the list splits it into the keys before it, itself and the keys after
  it; when no key occurs twice, it is in neither part.
\<close>

lemma split_at_key:
  assumes "k \<in> set ks"
  shows "ks = takeWhile (\<lambda>x. x \<noteq> k) ks @ k # tl (dropWhile (\<lambda>x. x \<noteq> k) ks)"
proof -
  from assms have "dropWhile (\<lambda>x. x \<noteq> k) ks \<noteq> []"
    by simp
  moreover from assms have "hd (dropWhile (\<lambda>x. x \<noteq> k) ks) = k"
    using hd_dropWhile [of "\<lambda>x. x \<noteq> k" ks] by auto
  ultimately have "dropWhile (\<lambda>x. x \<noteq> k) ks = k # tl (dropWhile (\<lambda>x. x \<noteq> k) ks)"
    by (cases "dropWhile (\<lambda>x. x \<noteq> k) ks") auto
  then show ?thesis
    using takeWhile_dropWhile_id [of "\<lambda>x. x \<noteq> k" ks] by simp
qed

lemma before_key: "k \<notin> set (takeWhile (\<lambda>x. x \<noteq> k) ks)"
  by (auto dest: set_takeWhileD)

lemma after_key:
  assumes "distinct ks" and "k \<in> set ks"
  shows "k \<notin> set (tl (dropWhile (\<lambda>x. x \<noteq> k) ks))"
proof -
  have "distinct (takeWhile (\<lambda>x. x \<noteq> k) ks @ k # tl (dropWhile (\<lambda>x. x \<noteq> k) ks))"
    using assms split_at_key [OF assms(2)] by simp
  then show ?thesis by simp
qed

lemma map_get_key: "map_get m k = Some v \<Longrightarrow> k \<in> set (map fst m)"
  by (auto simp add: map_get_def dest: map_of_SomeD intro: rev_image_eqI)

subsection \<open>The status sweep\<close>

lemma updateStep_other:
  "k' \<noteq> k \<Longrightarrow> map_get (tasks (updateStep w k st)) k' = map_get (tasks st) k'"
  by (simp add: updateStep_def newDate_def Let_def case_prod_beta split: option.splits)

lemma updateLoop_other:
  "k \<notin> set ks \<Longrightarrow> map_get (tasks (updateLoop w ks st)) k = map_get (tasks st) k"
  by (induction ks arbitrary: st) (auto simp add: updateStep_other)

lemma updateLoop_append:
  "updateLoop w (xs @ ys) st = updateLoop w ys (updateLoop w xs st)"
  by (induction xs arbitrary: st) auto

lemma updateStep_same:
  assumes "map_get (tasks st) k = Some t" and "containerId t = Some cid" and "cid \<noteq> []"
  shows "map_option status (map_get (tasks (updateStep w k st)) k) =
     Some (case fst (getContainerInfo w cid st) of
             None \<Rightarrow> status t
           | Some ci \<Rightarrow> if info_status ci = Some ''running'' then Running else Stopped)"
  using assms
  by (auto simp add: updateStep_def newDate_def Let_def case_prod_beta split: option.splits)

lemma updateStep_keeps:
  assumes "map_get (tasks st) k = Some t"
  shows "\<exists>t'. map_get (tasks (updateStep w k' st)) k = Some t'
              \<and> containerId t' = containerId t"
  using assms
  by (auto simp add: updateStep_def newDate_def Let_def case_prod_beta split: option.splits)

lemma updateLoop_keeps:
  "map_get (tasks st) k = Some t \<Longrightarrow>
   \<exists>t'. map_get (tasks (updateLoop w ks st)) k = Some t' \<and> containerId t' = containerId t"
proof (induction ks arbitrary: st t)
  case Nil
  then show ?case by simp
next
  case (Cons k' ks)
  from updateStep_keeps [OF Cons.prems, of w k']
  obtain t1 where t1: "map_get (tasks (updateStep w k' st)) k = Some t1"
    and c1: "containerId t1 = containerId t"
    by blast
  from Cons.IH [OF t1] c1 show ?case by simp
qed

subsection \<open>The auto-restart sweep\<close>

lemma restartStep_other:
  "k' \<noteq> k \<Longrightarrow> map_get (tasks (restartStep w k st)) k' = map_get (tasks st) k'"
  by (simp add: restartStep_def case_prod_beta startTask_other split: option.splits)

lemma runsFor_simps [simp]:
  "runsFor k [] = 0"
  "runsFor k (cs @ ds) = runsFor k cs + runsFor k ds"
  "runsFor k (inspectCmd cid # cs) = runsFor k cs"
  "runsFor k (startCmd t # cs) = (if id_t t = k then Suc (runsFor k cs) else runsFor k cs)"
  by (simp_all add: runsFor_def inspectCmd_def startCmd_def)

lemma restartStep_cases:
  assumes "map_get (tasks st) k = Some t"
  shows "restartStep w k st =
     (case containerId t of
        None \<Rightarrow> st
      | Some cid \<Rightarrow>
          if autoRestart t \<and> status t = Running \<and> cid \<noteq> [] then
            if notRunning (fst (getContainerInfo w cid st))
            then snd (startTask w k (snd (getContainerInfo w cid st)))
            else snd (getContainerInfo w cid st)
          else st)"
  using assms by (simp add: restartStep_def case_prod_beta split: option.splits)

lemma restartStep_runs_other:
  assumes "idsKept st" and "k' \<noteq> k"
  shows "runsFor k' (calls (restartStep w k st)) = runsFor k' (calls st)"
proof (cases "map_get (tasks st) k")
  case None
  then show ?thesis by (simp add: restartStep_def)
next
  case (Some t)
  with assms(1) have "id_t t = k" by (simp add: idsKept_def)
  with assms(2) Some show ?thesis
    by (simp add: restartStep_cases startTask_calls split: option.splits)
qed

lemma restartStep_idsKept:
  assumes "idsKept st"
  shows "idsKept (restartStep w k st)"
  unfolding idsKept_def
proof (intro allI impI)
  fix k' t'
  assume a: "map_get (tasks (restartStep w k st)) k' = Some t'"
  show "id_t t' = k'"
  proof (cases "k' = k")
    case False
    with a assms show ?thesis by (simp add: restartStep_other idsKept_def)
  next
    case True
    show ?thesis
    proof (cases "map_get (tasks st) k")
      case None
      with a True show ?thesis by (simp add: restartStep_def)
    next
      case (Some t)
      with assms have "id_t t = k" by (simp add: idsKept_def)
      with a True Some show ?thesis
        by (auto simp add: restartStep_cases startTask_same split: option.splits if_splits)
    qed
  qed
qed

lemma restartLoop_other:
  "k \<notin> set ks \<Longrightarrow> idsKept st \<Longrightarrow>
   map_get (tasks (restartLoop w ks st)) k = map_get (tasks st) k
   \<and> runsFor k (calls (restartLoop w ks st)) = runsFor k (calls st)"
  by (induction ks arbitrary: st)
     (auto simp add: restartStep_other restartStep_runs_other restartStep_idsKept)

lemma restartLoop_idsKept: "idsKept st \<Longrightarrow> idsKept (restartLoop w ks st)"
  by (induction ks arbitrary: st) (auto simp add: restartStep_idsKept)

lemma restartLoop_append:
  "restartLoop w (xs @ ys) st = restartLoop w ys (restartLoop w xs st)"
  by (induction xs arbitrary: st) auto

lemma wellFormed_idsKept: "wellFormed st \<Longrightarrow> idsKept st"
  by (auto simp add: wellFormed_def idsKept_def map_get_def list_all_iff dest: map_of_SomeD)

lemma restart_sweep_split:
  assumes "wellFormed st" and "map_get (tasks st) taskId = Some t"
  shows "map_get (tasks (restartReaches w taskId st)) taskId = Some t"
    and "runsFor taskId (calls (restartReaches w taskId st)) = runsFor taskId (calls st)"
    and "idsKept (restartReaches w taskId st)"
    and "map_get (tasks (restartAutoRestartTasks w st)) taskId
           = map_get (tasks (restartStep w taskId (restartReaches w taskId st))) taskId"
    and "runsFor taskId (calls (restartAutoRestartTasks w st))
           = runsFor taskId (calls (restartStep w taskId (restartReaches w taskId st)))"
proof -
  let ?ks = "map fst (tasks st)"
  let ?post = "tl (dropWhile (\<lambda>x. x \<noteq> taskId) ?ks)"
  let ?mid = "restartReaches w taskId st"
  have ids: "idsKept st" using assms(1) by (rule wellFormed_idsKept)
  have d: "distinct ?ks" using assms(1) by (simp add: wellFormed_def)
  have mem: "taskId \<in> set ?ks"
    using assms(2) by (rule map_get_key)
  have ks: "?ks = keysBefore taskId st @ taskId # ?post"
    unfolding keysBefore_def using mem by (rule split_at_key)
  have pre: "taskId \<notin> set (keysBefore taskId st)"
    by (simp add: keysBefore_def before_key)
  show "map_get (tasks ?mid) taskId = Some t"
    using restartLoop_other [OF pre ids, of w] assms(2) by (simp add: restartReaches_def)
  show "runsFor taskId (calls ?mid) = runsFor taskId (calls st)"
    using restartLoop_other [OF pre ids, of w] by (simp add: restartReaches_def)
  show mids: "idsKept ?mid"
    using ids by (simp add: restartReaches_def restartLoop_idsKept)
  have eq: "restartAutoRestartTasks w st = restartLoop w ?post (restartStep w taskId ?mid)"
    unfolding restartAutoRestartTasks_def restartReaches_def
    by (subst ks) (simp add: restartLoop_append)
  have post: "taskId \<notin> set ?post"
    using d mem by (rule after_key)
  have "idsKept (restartStep w taskId ?mid)"
    using mids by (rule restartStep_idsKept)
  from restartLoop_other [OF post this, of w]
  show "map_get (tasks (restartAutoRestartTasks w st)) taskId
           = map_get (tasks (restartStep w taskId ?mid)) taskId"
    and "runsFor taskId (calls (restartAutoRestartTasks w st))
           = runsFor taskId (calls (restartStep w taskId ?mid))"
    by (simp_all add: eq)
qed

lemma restartStep_keeps:
  assumes "map_get (tasks st) k = Some t"
  shows "\<exists>t'. map_get (tasks (restartStep w k' st)) k = Some t'
              \<and> (containerId t \<noteq> None \<longrightarrow> containerId t' \<noteq> None)
              \<and> (containerId t = None \<longrightarrow> t' = t)"
proof (cases "k' = k")
  case False
  with assms show ?thesis by (simp add: restartStep_other)
next
  case True
  with assms show ?thesis
    by (auto simp add: restartStep_cases startTask_same split: option.splits)
qed

lemma restartLoop_keeps:
  "map_get (tasks st) k = Some t \<Longrightarrow>
   \<exists>t'. map_get (tasks (restartLoop w ks st)) k = Some t'
        \<and> (containerId t \<noteq> None \<longrightarrow> containerId t' \<noteq> None)
        \<and> (containerId t = None \<longrightarrow> containerId t' = None)"
proof (induction ks arbitrary: st t)
  case Nil
  then show ?case by simp
next
  case (Cons k' ks)
  from restartStep_keeps [OF Cons.prems, of w k']
  obtain t1 where t1: "map_get (tasks (restartStep w k' st)) k = Some t1"
    and c1: "containerId t \<noteq> None \<longrightarrow> containerId t1 \<noteq> None"
    and c2: "containerId t = None \<longrightarrow> t1 = t"
    by auto
  from Cons.IH [OF t1] c1 c2 show ?case by auto
qed

subsection \<open>Well-formed stores\<close>

text \<open>
  The hypotheses the sweeps are proved under hold of every store the operations can
  build: no operation adds a key that is there already or stores a task under another id.
\<close>

lemma wellFormed_iff: "wellFormed st \<longleftrightarrow> distinct (map fst (tasks st)) \<and> idsKept st"
  by (auto simp add: wellFormed_def idsKept_def map_get_def list_all_iff dest: map_of_SomeD)

lemma map_set_keys:
  "map_get m k = Some v' \<Longrightarrow> map fst (map_set m k v) = map fst m"
  using map_get_key [of m k v'] by (simp add: map_set_def update_keys)

lemma startTask_keys: "map fst (tasks (snd (startTask w k st))) = map fst (tasks st)"
proof (cases "map_get (tasks st) k")
  case None
  then show ?thesis by (simp add: startTask_def)
next
  case (Some t)
  then show ?thesis by (simp add: startTask_found map_set_keys)
qed

lemma startTask_idsKept:
  assumes "idsKept st"
  shows "idsKept (snd (startTask w k st))"
  unfolding idsKept_def
proof (intro allI impI)
  fix k' t'
  assume a: "map_get (tasks (snd (startTask w k st))) k' = Some t'"
  show "id_t t' = k'"
  proof (cases "map_get (tasks st) k")
    case None
    with a assms show ?thesis by (simp add: startTask_def idsKept_def)
  next
    case (Some t)
    with assms have "id_t t = k" by (simp add: idsKept_def)
    with a Some assms show ?thesis
      by (cases "k' = k")
         (auto simp add: startTask_same startTask_other idsKept_def split: if_splits)
  qed
qed

lemma stopTask_keys: "map fst (tasks (snd (stopTask w k st))) = map fst (tasks st)"
  by (auto simp add: stopTask_def newDate_def case_prod_beta map_set_keys split: option.splits)

lemma stopTask_idsKept: "idsKept st \<Longrightarrow> idsKept (snd (stopTask w k st))"
  by (auto simp add: idsKept_def stopTask_def newDate_def case_prod_beta
      split: option.splits if_splits)

lemma updateStep_keys: "map fst (tasks (updateStep w k st)) = map fst (tasks st)"
  by (auto simp add: updateStep_def newDate_def Let_def case_prod_beta map_set_keys
      split: option.splits)

lemma updateStep_idsKept: "idsKept st \<Longrightarrow> idsKept (updateStep w k st)"
  by (auto simp add: idsKept_def updateStep_def newDate_def Let_def case_prod_beta
      split: option.splits if_splits)

lemma updateLoop_wellFormed: "wellFormed st \<Longrightarrow> wellFormed (updateLoop w ks st)"
  by (induction ks arbitrary: st)
     (simp_all add: wellFormed_iff updateStep_keys updateStep_idsKept)

lemma restartStep_keys: "map fst (tasks (restartStep w k st)) = map fst (tasks st)"
  by (simp add: restartStep_def case_prod_beta startTask_keys split: option.splits)

lemma restartLoop_wellFormed: "wellFormed st \<Longrightarrow> wellFormed (restartLoop w ks st)"
  by (induction ks arbitrary: st)
     (simp_all add: wellFormed_iff restartStep_keys restartStep_idsKept)

lemma removeTask_tasks:
  "tasks (snd (removeTask w k st)) =
     (case map_get (tasks st) k of None \<Rightarrow> tasks st | Some t \<Rightarrow> map_delete (tasks st) k)"
  using stopTask_tasks [of w k st]
  by (auto simp add: removeTask_def Let_def split: option.splits)

lemma createTask_id: "id_t (fst (createTask w td st)) = uuid w (uuids st)"
  by (simp add: createTask_def newDate_def Let_def taskData.extend_def task.fields_def)

lemma wellFormed_emptyOrch: "wellFormed emptyOrch"
  by (simp add: wellFormed_def emptyOrch_def)

lemma distinct_map_set:
  "distinct (map fst m) \<Longrightarrow> distinct (map fst (map_set m k v))"
  by (simp add: map_set_def distinct_update)

lemma distinct_map_delete:
  "distinct (map fst m) \<Longrightarrow> distinct (map fst (map_delete m k))"
  by (simp add: map_delete_def distinct_delete)

text \<open>Every operation leaves a well-formed store well formed.\<close>

lemma perform_wellFormed:
  assumes "wellFormed st"
  shows "wellFormed (perform w r st)"
proof (cases r)
  case (Create td)
  with assms show ?thesis
    by (auto simp add: wellFormed_iff idsKept_def createTask_tasks createTask_id
        distinct_map_set)
next
  case (Start k)
  with assms show ?thesis
    by (simp add: wellFormed_iff startTask_keys startTask_idsKept)
next
  case (Stop k)
  with assms show ?thesis
    by (simp add: wellFormed_iff stopTask_keys stopTask_idsKept)
next
  case (Logs k)
  with assms show ?thesis by (simp add: wellFormed_def)
next
  case (Remove k)
  with assms show ?thesis
    by (auto simp add: wellFormed_iff idsKept_def removeTask_tasks distinct_map_delete
        split: option.splits if_splits)
next
  case StatusSync
  with updateLoop_wellFormed [OF assms, of w "map fst (tasks st)"] show ?thesis
    by (simp add: wellFormed_def updateTaskStatuses_def)
next
  case AutoRestartSweep
  with restartLoop_wellFormed [OF assms] show ?thesis
    by (simp add: restartAutoRestartTasks_def)
qed

text \<open>So every store reached from the empty one is well formed.\<close>

lemma reachable_wellFormed: "wellFormed (foldl (\<lambda>st r. perform w r st) emptyOrch rs)"
proof -
  have "wellFormed st \<Longrightarrow> wellFormed (foldl (\<lambda>st r. perform w r st) st rs)" for st
    by (induction rs arbitrary: st) (simp_all add: perform_wellFormed)
  then show ?thesis using wellFormed_emptyOrch by blast
qed

subsection \<open>The stub worlds evaluated\<close>

lemma fixture_simps:
  "map_get (tasks (oneTask t)) (id_t t) = Some t"
  "calls (oneTask t) = []"
  "tasks (oneTask t) = [(id_t t, t)]"
  "stateFile (oneTask t) = []"
  by (simp_all add: oneTask_def emptyOrch_def map_get_def)

lemma stub_run:
  "nth_opt c (Suc 0) \<noteq> Some ''inspect'' \<Longrightarrow>
   fst (runCommand (stubWorld a (Exited code out err)) c st)
     = \<lparr>success = (code = 0), output_r = out, error = (if err = [] then None else Some err)\<rparr>"
  "nth_opt c (Suc 0) \<noteq> Some ''inspect'' \<Longrightarrow>
   fst (runCommand (stubWorld a (Threw msg)) c st)
     = \<lparr>success = False, output_r = [], error = Some msg\<rparr>"
  by (simp_all add: runCommand_def stubWorld_def)

lemma startCmd_not_inspect [simp]: "nth_opt (startCmd t) (Suc 0) \<noteq> Some ''inspect''"
  by (simp add: startCmd_def nth_opt_def)

lemma trim_abc [simp]: "trim ''abc123\<newline>'' = ''abc123''"
  by (simp add: trim_def isSpace_def)



lemma runningTask_simps [simp]:
  "id_t runningTask = ''t1''" "containerId runningTask = Some ''old''"
  "status runningTask = Running"
  by (simp_all add: runningTask_def webTask_def)

lemma inspect_is_inspect [simp]: "nth_opt (inspectCmd cid) (Suc 0) = Some ''inspect''"
  by (simp add: inspectCmd_def nth_opt_def)

lemma stub_inspect:
  "getContainerInfo (stubWorld (Exited code out err) b) cid st =
     (if code = 0 then
        Some \<lparr>info_id = nth_opt (split_on CHR '','' (trim out)) 0,
              info_status = nth_opt (split_on CHR '','' (trim out)) 1,
              info_name = nth_opt (split_on CHR '','' (trim out)) 2,
              info_image = nth_opt (split_on CHR '','' (trim out)) 3\<rparr>
      else None, st\<lparr>calls := calls st @ [inspectCmd cid]\<rparr>)"
  by (simp add: getContainerInfo_def runCommand_def stubWorld_def Let_def)

lemma keysBefore_oneTask [simp]: "keysBefore (id_t t) (oneTask t) = []"
  by (simp add: keysBefore_def fixture_simps)

lemma twoTasks_simps:
  "wellFormed twoTasks"
  "map_get (tasks twoTasks) ''t1'' = Some restartableTask"
  "map_get (tasks twoTasks) ''t2'' = Some plainTask"
  "calls twoTasks = []"
  "keysBefore ''t1'' twoTasks = []"
  by (simp_all add: twoTasks_def emptyOrch_def wellFormed_def map_get_def keysBefore_def
      restartableTask_def plainTask_def)

lemma restartableTask_simps [simp]:
  "autoRestart restartableTask" "status restartableTask = Running"
  "containerId restartableTask = Some ''old''" "id_t restartableTask = ''t1''"
  "\<not> autoRestart plainTask"
  by (simp_all add: restartableTask_def plainTask_def runningTask_def webTask_def)

section \<open>The claims\<close>

text \<open>
  C1, as the code has it. Let the map have no key twice and let the task have a non-empty
  \<open>containerId\<close>. When the status sweep reaches the task and \<open>getContainerInfo\<close>
  gives a snapshot, the sweep leaves the task running if the snapshot's status is
  \<open>running\<close> and stopped if it is anything else. When \<open>getContainerInfo\<close> gives
  no snapshot, the sweep leaves the status of the task as it was.
\<close>

theorem updateTaskStatuses_sync:
  assumes "distinct (map fst (tasks st))"
    and "map_get (tasks st) taskId = Some t"
    and "containerId t = Some cid" and "cid \<noteq> []"
  shows "map_option status (map_get (tasks (updateTaskStatuses w st)) taskId) =
     Some (case fst (getContainerInfo w cid (updateReaches w taskId st)) of
             None \<Rightarrow> status t
           | Some ci \<Rightarrow> if info_status ci = Some ''running'' then Running else Stopped)"
proof -
  let ?ks = "map fst (tasks st)"
  let ?post = "tl (dropWhile (\<lambda>x. x \<noteq> taskId) ?ks)"
  let ?mid = "updateReaches w taskId st"
  have mem: "taskId \<in> set ?ks"
    using assms(2) by (rule map_get_key)
  have ks: "?ks = keysBefore taskId st @ taskId # ?post"
    unfolding keysBefore_def using mem by (rule split_at_key)
  have mid: "map_get (tasks ?mid) taskId = Some t"
    using assms(2) by (simp add: updateReaches_def keysBefore_def updateLoop_other before_key)
  have "updateLoop w ?ks st = updateLoop w ?post (updateStep w taskId ?mid)"
    unfolding updateReaches_def by (subst ks) (simp add: updateLoop_append)
  then have "map_get (tasks (updateTaskStatuses w st)) taskId
      = map_get (tasks (updateStep w taskId ?mid)) taskId"
    using after_key [OF assms(1) mem]
    by (simp add: updateTaskStatuses_def updateLoop_other)
  then show ?thesis
    using updateStep_same [OF mid assms(3,4)] by simp
qed

theorem updateTaskStatuses_sync_witness:
  "map_option status (map_get (tasks (updateTaskStatuses
       (stubWorld (Exited 0 ''old,exited,task-t1,nginx:latest\<newline>'' []) (Threw []))
       (oneTask runningTask))) ''t1'') = Some Stopped"
proof -
  have d: "distinct (map fst (tasks (oneTask runningTask)))"
    by (simp add: fixture_simps)
  have h: "map_get (tasks (oneTask runningTask)) ''t1'' = Some runningTask"
    using fixture_simps(1) [of runningTask] by simp
  have c: "containerId runningTask = Some ''old''" "''old'' \<noteq> []"
    by simp_all
  have k: "keysBefore ''t1'' (oneTask runningTask) = []"
    using keysBefore_oneTask [of runningTask] by simp
  show ?thesis
    using updateTaskStatuses_sync [OF d h c,
        of "stubWorld (Exited 0 ''old,exited,task-t1,nginx:latest\<newline>'' []) (Threw [])"]
    by (simp add: updateReaches_def k stub_inspect trim_def isSpace_def nth_opt_def)
qed

text \<open>
  C1 as stated fails: podman answers the inspect with exit code 125 and "no such
  container", \<open>getContainerInfo\<close> gives no snapshot, and the task that was running
  is still running after the sweep, not stopped.
\<close>

theorem updateTaskStatuses_keeps_status_of_absent:
  "fst (getContainerInfo (stubWorld (Exited 125 [] ''Error: no such container old'') (Threw []))
          ''old'' (oneTask runningTask)) = None
   \<and> map_option status (map_get (tasks (updateTaskStatuses
          (stubWorld (Exited 125 [] ''Error: no such container old'') (Threw []))
          (oneTask runningTask))) ''t1'') = Some Running"
  by (simp add: updateTaskStatuses_def updateStep_def fixture_simps stub_inspect map_get_def)

text \<open>
  C2. In a well-formed store, take a task with \<open>autoRestart\<close>, status running and a
  non-empty \<open>containerId\<close>. If, when the sweep reaches it, \<open>getContainerInfo\<close> gives
  no snapshot or one that is not running, the sweep does for it what \<open>startTask\<close> does,
  the sweep as a whole issues exactly one more run command for the task, and the task ends
  running or in error as that run command succeeds or fails. A task that lacks one of the
  three conditions, or whose container is reported running, gets no run command and is
  left as it was.
\<close>

theorem restartAutoRestartTasks_sweep:
  assumes "wellFormed st" and "map_get (tasks st) taskId = Some t"
  shows "(\<forall>cid. autoRestart t \<and> status t = Running \<and> containerId t = Some cid \<and> cid \<noteq> []
              \<and> notRunning (fst (getContainerInfo w cid (restartReaches w taskId st))) \<longrightarrow>
            restartStep w taskId (restartReaches w taskId st)
              = snd (startTask w taskId (snd (getContainerInfo w cid (restartReaches w taskId st))))
          \<and> runsFor taskId (calls (restartAutoRestartTasks w st)) = Suc (runsFor taskId (calls st))
          \<and> map_option status (map_get (tasks (restartAutoRestartTasks w st)) taskId)
              = Some (if success (fst (runCommand w (startCmd t)
                                   (snd (getContainerInfo w cid (restartReaches w taskId st)))))
                      then Running else Error))
       \<and> (\<not> (autoRestart t \<and> status t = Running \<and> truthy (containerId t)) \<longrightarrow>
            runsFor taskId (calls (restartAutoRestartTasks w st)) = runsFor taskId (calls st)
          \<and> map_get (tasks (restartAutoRestartTasks w st)) taskId = Some t)
       \<and> (\<forall>cid. containerId t = Some cid
              \<and> \<not> notRunning (fst (getContainerInfo w cid (restartReaches w taskId st))) \<longrightarrow>
            runsFor taskId (calls (restartAutoRestartTasks w st)) = runsFor taskId (calls st)
          \<and> map_get (tasks (restartAutoRestartTasks w st)) taskId = Some t)"
proof -
  note s = restart_sweep_split [OF assms, of w]
  have idt: "id_t t = taskId"
    using wellFormed_idsKept [OF assms(1)] assms(2) by (simp add: idsKept_def)
  show ?thesis
    using s(1) s(2) idt
    by (auto simp add: s(4) s(5) restartStep_cases [OF s(1)] startTask_calls startTask_same
        truthy_def split: option.splits)
qed

theorem restartAutoRestartTasks_sweep_witness:
  "wellFormed twoTasks
   \<and> runsFor ''t1'' (calls (restartAutoRestartTasks
        (stubWorld (Exited 125 [] ''Error: no such container old'') (Exited 0 ''abc123\<newline>'' []))
        twoTasks)) = 1
   \<and> map_option status (map_get (tasks (restartAutoRestartTasks
        (stubWorld (Exited 125 [] ''Error: no such container old'') (Exited 0 ''abc123\<newline>'' []))
        twoTasks)) ''t1'') = Some Running
   \<and> runsFor ''t2'' (calls (restartAutoRestartTasks
        (stubWorld (Exited 125 [] ''Error: no such container old'') (Exited 0 ''abc123\<newline>'' []))
        twoTasks)) = 0
   \<and> map_get (tasks (restartAutoRestartTasks
        (stubWorld (Exited 125 [] ''Error: no such container old'') (Exited 0 ''abc123\<newline>'' []))
        twoTasks)) ''t2'' = Some plainTask"
proof -
  let ?w = "stubWorld (Exited 125 [] ''Error: no such container old'') (Exited 0 ''abc123\<newline>'' [])"
  have r: "restartReaches ?w ''t1'' twoTasks = twoTasks"
    by (simp add: restartReaches_def twoTasks_simps)
  have n: "notRunning (fst (getContainerInfo ?w ''old'' twoTasks))"
    by (simp add: stub_inspect notRunning_def)
  show ?thesis
    using n restartAutoRestartTasks_sweep [OF twoTasks_simps(1) twoTasks_simps(2), of ?w]
      restartAutoRestartTasks_sweep [OF twoTasks_simps(1) twoTasks_simps(3), of ?w]
    by (simp add: r twoTasks_simps stub_run)
qed

text \<open>
  C3, as the code has it. When the run command is issued the task is pending in the map,
  and the state file is what it was before \<open>startTask\<close> was called. \<open>startTask\<close>
  writes the state file once, after the command has returned, and what it writes is the
  map in which the task has its final status, which is not pending.
\<close>

theorem startTask_persists_after_run:
  assumes "map_get (tasks st) taskId = Some t"
  shows "map_option status (map_get (tasks (startTask_pending w taskId t st)) taskId) = Some Pending
       \<and> stateFile (startTask_pending w taskId t st) = stateFile st
       \<and> startTask w taskId st =
           startTask_settle w taskId (t\<lparr>status := Pending\<rparr>)
             (fst (runCommand w (startCmd t) (startTask_pending w taskId t st)))
             (snd (runCommand w (startCmd t) (startTask_pending w taskId t st)))
       \<and> stateFile (snd (startTask w taskId st))
           = stateFile st @ [\<lparr>saved_tasks = tasks (snd (startTask w taskId st)),
                              lastSaved = date w (Suc (Suc (ticks st)))\<rparr>]
       \<and> map_option status (map_get (tasks (snd (startTask w taskId st))) taskId) \<noteq> Some Pending"
  using assms by (simp add: startTask_def case_prod_beta)

theorem startTask_persists_after_run_witness:
  "map_get (tasks (oneTask webTask)) ''t1'' = Some webTask
   \<and> stateFile (snd (startTask (stubWorld (Threw []) (Exited 0 ''abc123\<newline>'' [])) ''t1''
        (oneTask webTask)))
     = [\<lparr>saved_tasks = tasks (snd (startTask (stubWorld (Threw []) (Exited 0 ''abc123\<newline>'' []))
           ''t1'' (oneTask webTask))),
         lastSaved = date (stubWorld (Threw []) (Exited 0 ''abc123\<newline>'' [])) 2\<rparr>]"
proof -
  have h: "map_get (tasks (oneTask webTask)) ''t1'' = Some webTask"
    using fixture_simps(1) [of webTask] by (simp add: webTask_def)
  have t: "ticks (oneTask webTask) = 0"
    by (simp add: oneTask_def emptyOrch_def)
  show ?thesis
    using h t startTask_persists_after_run [OF h, of "stubWorld (Threw []) (Exited 0 ''abc123\<newline>'' [])"]
    by (simp add: fixture_simps numeral_2_eq_2)
qed

text \<open>
  C3 as stated fails: starting the one task of a store whose state file was never written,
  the task is pending in the map when the run command is issued and the state file is
  still unwritten; the one snapshot \<open>startTask\<close> writes has the task running.
\<close>

theorem startTask_pending_not_persisted:
  "map_option status (map_get (tasks (startTask_pending
       (stubWorld (Threw []) (Exited 0 ''abc123\<newline>'' [])) ''t1'' webTask (oneTask webTask))) ''t1'')
     = Some Pending
   \<and> stateFile (startTask_pending
       (stubWorld (Threw []) (Exited 0 ''abc123\<newline>'' [])) ''t1'' webTask (oneTask webTask)) = []
   \<and> map (\<lambda>s. map_option status (map_get (saved_tasks s) ''t1''))
       (stateFile (snd (startTask (stubWorld (Threw []) (Exited 0 ''abc123\<newline>'' [])) ''t1''
          (oneTask webTask)))) = [Some Running]"
proof -
  have h: "map_get (tasks (oneTask webTask)) ''t1'' = Some webTask"
    using fixture_simps(1) [of webTask] by (simp add: webTask_def)
  show ?thesis
    using h by (simp add: startTask_found fixture_simps stub_run)
qed

text \<open>
  C4. For a task that is in the store, the entry \<open>startTask\<close> leaves behind is never
  pending: it is running, with the trimmed output of the run command as \<open>containerId\<close>,
  when the command succeeded, and in error when it failed; the reply says which.
\<close>

theorem startTask_settles:
  assumes "map_get (tasks st) taskId = Some t"
  shows "\<exists>t'. map_get (tasks (snd (startTask w taskId st))) taskId = Some t'
           \<and> status t' \<noteq> Pending
           \<and> (if success (fst (runCommand w (startCmd t) st))
              then status t' = Running
                 \<and> containerId t' = Some (trim (output_r (fst (runCommand w (startCmd t) st))))
                 \<and> successR (fst (startTask w taskId st))
              else status t' = Error \<and> \<not> successR (fst (startTask w taskId st)))"
  using assms by (simp add: startTask_found)

theorem startTask_settles_witness:
  "\<exists>t'. map_get (tasks (snd (startTask (stubWorld (Threw []) (Exited 0 ''abc123\<newline>'' []))
             ''t1'' (oneTask webTask)))) ''t1'' = Some t'
        \<and> status t' = Running \<and> containerId t' = Some ''abc123''"
proof -
  have h: "map_get (tasks (oneTask webTask)) ''t1'' = Some webTask"
    using fixture_simps(1) [of webTask] by (simp add: webTask_def)
  show ?thesis
    using startTask_settles [OF h, of "stubWorld (Threw []) (Exited 0 ''abc123\<newline>'' [])"]
    by (auto simp add: stub_run)
qed

text \<open>
  C5. On a task without a (non-empty) \<open>containerId\<close>, \<open>stopTask\<close> replies
  "No container ID found" and changes nothing at all. When the stop command fails,
  the reply carries the failure and the error text, and neither the tasks nor the state
  file change.
\<close>

theorem stopTask_failures:
  assumes "map_get (tasks st) taskId = Some t"
  shows "(\<not> truthy (containerId t) \<longrightarrow>
            stopTask w taskId st = (\<lparr>successR = False, message = ''No container ID found''\<rparr>, st))
       \<and> (\<forall>cid. containerId t = Some cid \<and> cid \<noteq> []
              \<and> \<not> success (fst (runCommand w [''podman'', ''stop'', cid] st)) \<longrightarrow>
            fst (stopTask w taskId st)
              = \<lparr>successR = False,
                 message = ''Failed to stop task: ''
                   @ show_opt (error (fst (runCommand w [''podman'', ''stop'', cid] st)))\<rparr>
            \<and> tasks (snd (stopTask w taskId st)) = tasks st
            \<and> stateFile (snd (stopTask w taskId st)) = stateFile st)"
  using assms
  by (auto simp add: stopTask_def truthy_def case_prod_beta split: option.splits)

theorem stopTask_failures_witness:
  "stopTask (stubWorld (Threw []) (Exited 0 [] [])) ''t1'' (oneTask webTask)
     = (\<lparr>successR = False, message = ''No container ID found''\<rparr>, oneTask webTask)
   \<and> fst (stopTask (stubWorld (Threw []) (Exited 125 [] ''no such container'')) ''t1''
            (oneTask runningTask))
       = \<lparr>successR = False, message = ''Failed to stop task: no such container''\<rparr>
   \<and> tasks (snd (stopTask (stubWorld (Threw []) (Exited 125 [] ''no such container'')) ''t1''
            (oneTask runningTask))) = [(''t1'', runningTask)]"
proof -
  have h1: "map_get (tasks (oneTask webTask)) ''t1'' = Some webTask"
    using fixture_simps(1) [of webTask] by (simp add: webTask_def)
  have h2: "map_get (tasks (oneTask runningTask)) ''t1'' = Some runningTask"
    using fixture_simps(1) [of runningTask] by simp
  have n: "\<not> truthy (containerId webTask)"
    by (simp add: truthy_def webTask_def)
  show ?thesis
    using n stopTask_failures [OF h1, of "stubWorld (Threw []) (Exited 0 [] [])"]
      stopTask_failures [OF h2, of "stubWorld (Threw []) (Exited 125 [] ''no such container'')"]
    by (simp add: stub_run fixture_simps nth_opt_def show_opt_def)
qed

text \<open>
  C6. For a task that is in the store, \<open>removeTask\<close> replies with success and leaves
  the store without the task, whatever its status was and whatever the stop and the
  \<open>podman rm\<close> resolve to; the state file is written with the task gone.
\<close>

theorem removeTask_removes:
  assumes "map_get (tasks st) taskId = Some t"
  shows "fst (removeTask w taskId st)
           = \<lparr>successR = True, message = ''Task removed successfully''\<rparr>
       \<and> tasks (snd (removeTask w taskId st)) = map_delete (tasks st) taskId
       \<and> getTask (snd (removeTask w taskId st)) taskId = None
       \<and> taskId \<notin> set (map fst (tasks (snd (removeTask w taskId st))))
       \<and> saved_tasks (last (stateFile (snd (removeTask w taskId st))))
           = tasks (snd (removeTask w taskId st))"
proof -
  have "tasks (snd (removeTask w taskId st)) = map_delete (tasks st) taskId"
    using assms stopTask_tasks [of w taskId st]
    by (auto simp add: removeTask_def Let_def split: option.splits)
  moreover have "fst (removeTask w taskId st)
           = \<lparr>successR = True, message = ''Task removed successfully''\<rparr>"
    using assms by (simp add: removeTask_def Let_def)
  moreover have "saved_tasks (last (stateFile (snd (removeTask w taskId st))))
           = tasks (snd (removeTask w taskId st))"
    using assms by (simp add: removeTask_def Let_def)
  ultimately show ?thesis
    by (simp add: getTask_def)
qed

theorem removeTask_removes_witness:
  "map_get (tasks (oneTask runningTask)) ''t1'' = Some runningTask
   \<and> fst (removeTask (stubWorld (Threw []) (Exited 125 [] ''no such container'')) ''t1''
        (oneTask runningTask)) = \<lparr>successR = True, message = ''Task removed successfully''\<rparr>
   \<and> getTasks (snd (removeTask (stubWorld (Threw []) (Exited 125 [] ''no such container'')) ''t1''
        (oneTask runningTask))) = []
   \<and> calls (snd (removeTask (stubWorld (Threw []) (Exited 125 [] ''no such container'')) ''t1''
        (oneTask runningTask))) = [[''podman'', ''stop'', ''old''], [''podman'', ''rm'', ''old'']]"
proof -
  have h: "map_get (tasks (oneTask runningTask)) ''t1'' = Some runningTask"
    using fixture_simps(1) [of runningTask] by simp
  have c: "calls (snd (removeTask (stubWorld (Threw []) (Exited 125 [] ''no such container'')) ''t1''
        (oneTask runningTask))) = [[''podman'', ''stop'', ''old''], [''podman'', ''rm'', ''old'']]"
    using h by (simp add: removeTask_def stopTask_def Let_def truthy_def stub_run nth_opt_def
        fixture_simps case_prod_beta)
  show ?thesis
    using h c removeTask_removes [OF h, of "stubWorld (Threw []) (Exited 125 [] ''no such container'')"]
    by (simp add: getTasks_def fixture_simps map_delete_def)
qed

text \<open>
  C7, as the code has it. A created task has the \<open>containerId\<close> of its request, none
  when the request has none. Under every operation but \<open>removeTask\<close> (a create
  drawing another id) a task stays in the store, a \<open>containerId\<close> that is set stays
  set, and the \<open>containerId\<close> changes at most under a start of that task or the
  auto-restart sweep; in particular a stop leaves it as it is. A start sets it to the
  trimmed output of the run command when that succeeds and leaves it as it was when that
  fails.
\<close>

theorem containerId_kept:
  assumes "map_get (tasks st) k = Some t"
    and "\<forall>taskId. r \<noteq> Remove taskId"
    and "\<forall>td. r = Create td \<longrightarrow> uuid w (uuids st) \<noteq> k"
  shows "containerId (fst (createTask w td st)) = containerId td
       \<and> (\<exists>t'. map_get (tasks (perform w r st)) k = Some t'
            \<and> (containerId t \<noteq> None \<longrightarrow> containerId t' \<noteq> None)
            \<and> (containerId t' \<noteq> containerId t \<longrightarrow> r = Start k \<or> r = AutoRestartSweep)
            \<and> (r = Start k \<longrightarrow>
                 containerId t' =
                   (if success (fst (runCommand w (startCmd t) st))
                    then Some (trim (output_r (fst (runCommand w (startCmd t) st))))
                    else containerId t)))"
proof
  show "containerId (fst (createTask w td st)) = containerId td"
    by (simp add: createTask_def newDate_def Let_def taskData.extend_def)
next
  show "\<exists>t'. map_get (tasks (perform w r st)) k = Some t'
            \<and> (containerId t \<noteq> None \<longrightarrow> containerId t' \<noteq> None)
            \<and> (containerId t' \<noteq> containerId t \<longrightarrow> r = Start k \<or> r = AutoRestartSweep)
            \<and> (r = Start k \<longrightarrow>
                 containerId t' =
                   (if success (fst (runCommand w (startCmd t) st))
                    then Some (trim (output_r (fst (runCommand w (startCmd t) st))))
                    else containerId t))"
  proof (cases r)
    case (Create td')
    with assms show ?thesis by (simp add: createTask_tasks)
  next
    case (Start k')
    with assms(1) show ?thesis
      by (cases "k' = k") (simp_all add: startTask_same startTask_other)
  next
    case (Stop k')
    with stopTask_keeps [OF assms(1), of w k'] show ?thesis by auto
  next
    case (Logs k')
    with assms(1) show ?thesis by simp
  next
    case (Remove k')
    with assms(2) show ?thesis by simp
  next
    case StatusSync
    with updateLoop_keeps [OF assms(1), of w "map fst (tasks st)"] show ?thesis
      by (auto simp add: updateTaskStatuses_def)
  next
    case AutoRestartSweep
    with restartLoop_keeps [OF assms(1), of w "map fst (tasks st)"] show ?thesis
      by (auto simp add: restartAutoRestartTasks_def)
  qed
qed

theorem containerId_kept_witness:
  "map_get (tasks (oneTask runningTask)) ''t1'' = Some runningTask
   \<and> map_option containerId (map_get (tasks (perform (stubWorld (Threw []) (Exited 0 [] []))
        (Stop ''t1'') (oneTask runningTask))) ''t1'') = Some (Some ''old'')
   \<and> map_option status (map_get (tasks (perform (stubWorld (Threw []) (Exited 0 [] []))
        (Stop ''t1'') (oneTask runningTask))) ''t1'') = Some Stopped"
proof -
  have h: "map_get (tasks (oneTask runningTask)) ''t1'' = Some runningTask"
    using fixture_simps(1) [of runningTask] by simp
  have s: "map_option status (map_get (tasks (perform (stubWorld (Threw []) (Exited 0 [] []))
        (Stop ''t1'') (oneTask runningTask))) ''t1'') = Some Stopped"
    using h by (simp add: stopTask_def case_prod_beta newDate_def stub_run nth_opt_def)
  have a: "\<forall>taskId. Stop ''t1'' \<noteq> Remove taskId" "\<forall>td. Stop ''t1'' = Create td \<longrightarrow>
      uuid (stubWorld (Threw []) (Exited 0 [] [])) (uuids (oneTask runningTask)) \<noteq> ''t1''"
    by simp_all
  show ?thesis
    using h s containerId_kept [OF h a]
    by auto
qed

text \<open>
  C7 as stated fails: a task is created and started, the run command fails, and the task
  has had its start attempt and still no \<open>containerId\<close>.
\<close>

theorem failed_start_sets_no_containerId:
  "runsFor ''uuid-'' (calls (perform (stubWorld (Threw []) (Exited 125 [] ''Error: image not known''))
      (Start ''uuid-'')
      (perform (stubWorld (Threw []) (Exited 125 [] ''Error: image not known''))
         (Create webData) emptyOrch))) = 1
   \<and> map_option containerId (map_get (tasks
      (perform (stubWorld (Threw []) (Exited 125 [] ''Error: image not known''))
      (Start ''uuid-'')
      (perform (stubWorld (Threw []) (Exited 125 [] ''Error: image not known''))
         (Create webData) emptyOrch))) ''uuid-'') = Some None"
proof -
  let ?w = "stubWorld (Threw []) (Exited 125 [] ''Error: image not known'')"
  let ?t = "fst (createTask ?w webData emptyOrch)"
  have u: "uuid ?w (uuids emptyOrch) = ''uuid-''"
    by (simp add: stubWorld_def emptyOrch_def)
  have g: "map_get (tasks (perform ?w (Create webData) emptyOrch)) ''uuid-'' = Some ?t"
    by (simp add: createTask_tasks u)
  have c: "calls (perform ?w (Create webData) emptyOrch) = []"
    by (simp add: createTask_def newDate_def Let_def emptyOrch_def)
  have i: "id_t ?t = ''uuid-''" "containerId ?t = None"
    by (simp_all add: createTask_def newDate_def Let_def taskData.extend_def task.fields_def
        u webData_def)
  show ?thesis
    using g c i by (simp add: startTask_same startTask_calls stub_run)
qed

text \<open>
  C8, as the code has it. \<open>createTask\<close> checks nothing: for every request it takes
  the id \<open>crypto.randomUUID()\<close> returns, sets the status to stopped, stamps
  \<open>createdAt\<close> and \<open>updatedAt\<close> from two readings of the clock, keeps the other
  fields of the request, stores the task under its id, writes the state file and returns
  the task.
\<close>

theorem createTask_result:
  "id_t (fst (createTask w td st)) = uuid w (uuids st)
   \<and> status (fst (createTask w td st)) = Stopped
   \<and> createdAt (fst (createTask w td st)) = date w (ticks st)
   \<and> updatedAt (fst (createTask w td st)) = date w (Suc (ticks st))
   \<and> taskData.truncate (fst (createTask w td st)) = td
   \<and> tasks (snd (createTask w td st))
       = map_set (tasks st) (uuid w (uuids st)) (fst (createTask w td st))
   \<and> getTask (snd (createTask w td st)) (uuid w (uuids st)) = Some (fst (createTask w td st))
   \<and> stateFile (snd (createTask w td st))
       = stateFile st @ [\<lparr>saved_tasks = tasks (snd (createTask w td st)),
                          lastSaved = date w (Suc (Suc (ticks st)))\<rparr>]"
  by (simp add: createTask_def newDate_def Let_def getTask_def taskData.truncate_def
      taskData.extend_def task.fields_def)

text \<open>
  C8 as stated fails: a request whose name and image are both empty is not refused. The
  task is created and is the one task \<open>getTasks\<close> lists.
\<close>

theorem createTask_accepts_empty:
  "name (fst (createTask (stubWorld (Threw []) (Threw [])) blankData emptyOrch)) = []
   \<and> image_t (fst (createTask (stubWorld (Threw []) (Threw [])) blankData emptyOrch)) = []
   \<and> getTasks (snd (createTask (stubWorld (Threw []) (Threw [])) blankData emptyOrch))
       = [fst (createTask (stubWorld (Threw []) (Threw [])) blankData emptyOrch)]"
  by (simp add: createTask_def newDate_def Let_def getTasks_def taskData.extend_def
      task.fields_def blankData_def emptyOrch_def map_set_def stubWorld_def)

text \<open>
  C9, as the code has it. \<open>getContainerInfo\<close> resolves to \<open>null\<close> for every
  unsuccessful invocation, a non-zero exit and a failure to launch podman alike, and it has
  no error value to return; when the invocation succeeds it resolves to the four parts of
  the trimmed output split at commas.
\<close>

theorem getContainerInfo_result:
  "fst (getContainerInfo w cid st) =
     (case exec w (calls st) (inspectCmd cid) of
        Threw msg \<Rightarrow> None
      | Exited code out err \<Rightarrow>
          if code = 0 then
            Some \<lparr>info_id = nth_opt (split_on CHR '','' (trim out)) 0,
                  info_status = nth_opt (split_on CHR '','' (trim out)) 1,
                  info_name = nth_opt (split_on CHR '','' (trim out)) 2,
                  info_image = nth_opt (split_on CHR '','' (trim out)) 3\<rparr>
          else None)"
  by (simp add: getContainerInfo_def runCommand_def Let_def split: proc_outcome.splits)

text \<open>
  C9 as stated fails: podman that cannot be launched (a transport failure) and podman
  that exits with 125 and "no such container" both make \<open>getContainerInfo\<close> resolve to
  the same \<open>null\<close>.
\<close>

theorem getContainerInfo_conflates_failures:
  "fst (getContainerInfo
          (stubWorld (Threw ''No such file or directory (os error 2)'') (Threw []))
          ''abc'' emptyOrch) = None
   \<and> fst (getContainerInfo
          (stubWorld (Exited 125 [] ''Error: no such container abc'') (Threw []))
          ''abc'' emptyOrch) = None"
  by (simp add: getContainerInfo_def runCommand_def stubWorld_def emptyOrch_def
      inspectCmd_def nth_opt_def)

text \<open>
  C10. \<open>startTask\<close> never looks at the status: whatever it is, exactly the run command
  built from the task is issued, and on success the \<open>containerId\<close> is the new
  identifier, whatever it was before.
\<close>

theorem startTask_no_guard:
  assumes "map_get (tasks st) taskId = Some t"
  shows "calls (snd (startTask w taskId st)) = calls st @ [startCmd t]
       \<and> (success (fst (runCommand w (startCmd t) st)) \<longrightarrow>
            map_option containerId (map_get (tasks (snd (startTask w taskId st))) taskId)
              = Some (Some (trim (output_r (fst (runCommand w (startCmd t) st))))))"
  using assms by (simp add: startTask_found)

theorem startTask_no_guard_witness:
  "map_get (tasks (oneTask runningTask)) ''t1'' = Some runningTask
   \<and> status runningTask = Running \<and> containerId runningTask = Some ''old''
   \<and> calls (snd (startTask (stubWorld (Threw []) (Exited 0 ''abc123\<newline>'' [])) ''t1''
         (oneTask runningTask))) = [startCmd runningTask]
   \<and> map_option containerId (map_get (tasks (snd (startTask
         (stubWorld (Threw []) (Exited 0 ''abc123\<newline>'' [])) ''t1'' (oneTask runningTask)))) ''t1'')
       = Some (Some ''abc123'')"
proof -
  have h: "map_get (tasks (oneTask runningTask)) ''t1'' = Some runningTask"
    using fixture_simps(1) [of runningTask] by simp
  show ?thesis
    using h startTask_no_guard [OF h, of "stubWorld (Threw []) (Exited 0 ''abc123\<newline>'' [])"]
    by (simp add: stub_run fixture_simps)
qed

end
